theory Spec2Isabelle
  imports
    Main
    "HOL-Library.Char_ord"
    "HOL-Library.List_Lexorder"
    "HOL-Library.Sublist"
    "HOL-Library.Multiset"
begin

section \<open>edls: a directory lister\<close>

text \<open>
  A shallow embedding of the Go program \<^verbatim>\<open>edls\<close>: the classifier (\<^verbatim>\<open>setFile\<close>), the
  filter loop of \<^verbatim>\<open>main\<close>, the three sort functions and \<^verbatim>\<open>printList\<close>.

  Strings are byte lists (\<open>string\<close>), compared bytewise as Go compares strings
  (\<open>Char_ord\<close> with \<open>List_Lexorder\<close>). \<^verbatim>\<open>int\<close> and \<^verbatim>\<open>int64\<close> values are modelled as
  \<open>int\<close>: the program only compares them, it does no arithmetic on them.
\<close>

subsection \<open>The library functions of package strings\<close>

definition HasPrefix :: "string \<Rightarrow> string \<Rightarrow> bool" where
  "HasPrefix s p = prefix p s"

definition HasSuffix :: "string \<Rightarrow> string \<Rightarrow> bool" where
  "HasSuffix s p = suffix p s"

definition Contains :: "string \<Rightarrow> string \<Rightarrow> bool" where
  "Contains s sub = sublist sub s"

text \<open>
  \<^verbatim>\<open>strings.ToUpper\<close> on ASCII text: the letters change case, every other byte stays. The
  program applies it to the mode string only, which \<^verbatim>\<open>FileMode.String\<close> renders in ASCII.

  \<^verbatim>\<open>strings.ToLower\<close> is applied to file names, which need not be ASCII: Go maps every
  Unicode letter. The sort by name therefore takes the lower-casing as a parameter (the
  field \<open>ToLower\<close> of the host, below), and its theorems hold for every such function.
  \<open>asciiToLower\<close> is the lower-casing of the sample host: it agrees with
  \<^verbatim>\<open>strings.ToLower\<close> on ASCII names, the only names the examples use.
\<close>

definition toUpperChar :: "char \<Rightarrow> char" where
  "toUpperChar c =
     (if CHR ''a'' \<le> c \<and> c \<le> CHR ''z'' then char_of (of_char c - (32::nat)) else c)"

definition toLowerChar :: "char \<Rightarrow> char" where
  "toLowerChar c =
     (if CHR ''A'' \<le> c \<and> c \<le> CHR ''Z'' then char_of (of_char c + (32::nat)) else c)"

definition ToUpper :: "string \<Rightarrow> string" where
  "ToUpper s = map toUpperChar s"

definition asciiToLower :: "string \<Rightarrow> string" where
  "asciiToLower s = map toLowerChar s"

subsection \<open>Data model\<close>

text \<open>
  Modelled from the spec: the declaration of the constants \<^verbatim>\<open>fileRegular\<close> ... \<^verbatim>\<open>fileLink\<close>
  that \<^verbatim>\<open>setFile\<close> assigns is not among the source files. The specification gives six
  kinds, mutually exclusive (Regular, Directory, Executable, Compressed, Image,
  SymbolicLink); \<^verbatim>\<open>edls.go\<close> enumerates the same six with \<^verbatim>\<open>iota\<close> under shorter names.
\<close>

datatype fileType =
  fileRegular | fileDirectory | fileExecutable | fileCompress | fileImage | fileLink

text \<open>The file extensions of \<^verbatim>\<open>edls.go\<close>.\<close>

definition exe :: string where "exe = ''.exe''"
definition deb :: string where "deb = ''.deb''"
definition zip_ext :: string where "zip_ext = ''.zip''"
definition gz :: string where "gz = ''.gz''"
definition tar :: string where "tar = ''.tar''"
definition rar :: string where "rar = ''.rar''"
definition png :: string where "png = ''.png''"
definition jpg :: string where "jpg = ''.jpg''"
definition gif :: string where "gif = ''.gif''"

text \<open>
  A \<^verbatim>\<open>time.Time\<close>: the seconds since the epoch, which \<^verbatim>\<open>Unix()\<close> returns, and the
  nanoseconds within the second.
\<close>

record modtime =
  sec :: int
  nsec :: nat

definition Unix :: "modtime \<Rightarrow> int" where
  "Unix t = sec t"

text \<open>
  Modelled from the spec: the declaration of the struct \<^verbatim>\<open>file\<close> is not among the source
  files. Its fields are those of the composite literal in \<^verbatim>\<open>getFile\<close> and the field that
  \<^verbatim>\<open>setFile\<close> assigns, with the types the specification gives to a FileEntry. The record is
  \<open>file_t\<close> (the bare name is reserved in Isabelle); the fields \<^verbatim>\<open>size\<close> and \<^verbatim>\<open>isHidden\<close>
  carry a suffix: the first name is a constant of HOL, the second is also a function of
  the program.
\<close>

record file_t =
  name :: string
  isDir :: bool
  isHidden_f :: bool
  userName :: string
  groupName :: string
  size_f :: int
  modificationTime :: modtime
  mode :: string
  fileType :: fileType

text \<open>
  What the program reads of the operating system: an \<^verbatim>\<open>fs.FileInfo\<close> (\<open>Mode\<close> is the
  string \<^verbatim>\<open>info.Mode().String()\<close>) and an \<^verbatim>\<open>os.DirEntry\<close>, whose \<^verbatim>\<open>Info()\<close> returns the
  file information or an error (\<open>Inl\<close>, the error's text).
\<close>

record fileInfo =
  Size :: int
  ModTime :: modtime
  Mode :: string

record dirEntry =
  Name :: string
  IsDir :: bool
  Info :: "string + fileInfo"

subsection \<open>The classifier\<close>

definition isLink :: "file_t \<Rightarrow> bool" where
  "isLink f = HasPrefix (ToUpper (mode f)) ''L''"

text \<open>
  \<^verbatim>\<open>isExec\<close> branches on \<^verbatim>\<open>runtime.GOOS == Windows\<close>, where the constant \<^verbatim>\<open>Windows\<close> is
  declared outside the source files; the outcome of that test is the parameter
  \<open>onWindows\<close>.
\<close>

definition isExec :: "bool \<Rightarrow> file_t \<Rightarrow> bool" where
  "isExec onWindows f =
     (if onWindows then HasSuffix (name f) exe else Contains (mode f) ''x'')"

text \<open>The loop of \<^verbatim>\<open>isCompress\<close> and \<^verbatim>\<open>isImage\<close>: return true at the first suffix that fits.\<close>

fun rangeSuffix :: "string \<Rightarrow> string list \<Rightarrow> bool" where
  "rangeSuffix n [] = False"
| "rangeSuffix n (s # ss) = (if HasSuffix n s then True else rangeSuffix n ss)"

definition isCompress :: "file_t \<Rightarrow> bool" where
  "isCompress f = rangeSuffix (name f) [deb, zip_ext, gz, tar, rar]"

definition isImage :: "file_t \<Rightarrow> bool" where
  "isImage f = rangeSuffix (name f) [png, jpg, gif]"

definition setFile :: "bool \<Rightarrow> file_t \<Rightarrow> file_t" where
  "setFile onWindows f =
     (if isLink f then f\<lparr>fileType := fileLink\<rparr>
      else if isDir f then f\<lparr>fileType := fileDirectory\<rparr>
      else if isExec onWindows f then f\<lparr>fileType := fileExecutable\<rparr>
      else if isCompress f then f\<lparr>fileType := fileCompress\<rparr>
      else if isImage f then f\<lparr>fileType := fileImage\<rparr>
      else f\<lparr>fileType := fileRegular\<rparr>)"

text \<open>
  \<^verbatim>\<open>getFile\<close>: the error of \<^verbatim>\<open>f.Info()\<close> wrapped by \<^verbatim>\<open>fmt.Errorf("f.Info(): %v", err)\<close>, or
  the classified file. \<^verbatim>\<open>setFile\<close> assigns the type in every branch, so the value the field
  holds before the call (the zero value of the enumeration) is never read.
\<close>

definition getFile :: "bool \<Rightarrow> dirEntry \<Rightarrow> bool \<Rightarrow> string + file_t" where
  "getFile onWindows f hidden =
     (case Info f of
        Inl err \<Rightarrow> Inl (''f.Info(): '' @ err)
      | Inr info \<Rightarrow>
          Inr (setFile onWindows
            \<lparr>name = Name f, isDir = IsDir f, isHidden_f = hidden,
             userName = ''user'', groupName = ''group'',
             size_f = Size info, modificationTime = ModTime info,
             mode = Mode info, fileType = fileRegular\<rparr>))"

definition isHidden :: "string \<Rightarrow> string \<Rightarrow> bool" where
  "isHidden filename basePath = HasPrefix filename ''.''"

subsection \<open>Sorting\<close>

definition mySort :: "'k::linorder \<Rightarrow> 'k \<Rightarrow> bool \<Rightarrow> bool" where
  "mySort i j isReverse = (if isReverse then i > j else i < j)"

text \<open>
  \<^verbatim>\<open>sort.SliceStable\<close> belongs to Go's library. Up to 20 elements it runs this insertion sort:
  \<^verbatim>\<open>for i := a + 1; i < b; i++ { for j := i; j > a && less(j, j-1); j-- { swap(j, j-1) } }\<close>.
  Element \<open>i\<close> moves left while it is less than the element before it. Longer slices are
  insertion-sorted in blocks of 20 which a stable merge then joins; with a \<open>less\<close> that
  compares keys, as all three callers pass, the result is the same list (the sorted
  arrangement that keeps equal keys in their old order is unique, see
  \<open>stable_sorted_unique\<close>).
\<close>

function insertLast :: "('a \<Rightarrow> 'a \<Rightarrow> bool) \<Rightarrow> 'a list \<Rightarrow> 'a \<Rightarrow> 'a list" where
  "insertLast lessf pre x =
     (if pre = [] then [x]
      else if lessf x (last pre) then insertLast lessf (butlast pre) x @ [last pre]
      else pre @ [x])"
  by pat_completeness auto
termination
  by (relation "measure (\<lambda>(lessf, pre, x). length pre)") auto

declare insertLast.simps [simp del]

definition SliceStable :: "('a \<Rightarrow> 'a \<Rightarrow> bool) \<Rightarrow> 'a list \<Rightarrow> 'a list" where
  "SliceStable lessf xs = foldl (insertLast lessf) [] xs"

text \<open>
  \<open>orderByName\<close> takes \<^verbatim>\<open>strings.ToLower\<close> as its first argument, \<open>lower\<close>.
\<close>

definition orderByName :: "(string \<Rightarrow> string) \<Rightarrow> file_t list \<Rightarrow> bool \<Rightarrow> file_t list" where
  "orderByName lower files isReverse =
     SliceStable (\<lambda>fi fj. mySort (lower (name fi)) (lower (name fj)) isReverse) files"

definition orderBySize :: "file_t list \<Rightarrow> bool \<Rightarrow> file_t list" where
  "orderBySize files isReverse =
     SliceStable (\<lambda>fi fj. mySort (size_f fi) (size_f fj) isReverse) files"

definition orderByTime :: "file_t list \<Rightarrow> bool \<Rightarrow> file_t list" where
  "orderByTime files isReverse =
     SliceStable (\<lambda>fi fj. mySort (Unix (modificationTime fi)) (Unix (modificationTime fj))
       isReverse) files"

subsection \<open>Printing\<close>

text \<open>
  Modelled from the spec: the table \<^verbatim>\<open>mapStyleByFileType\<close> and the type of its values are
  declared outside the source files. A style holds an icon and a trailing symbol, the two
  fields that \<^verbatim>\<open>printList\<close> reads; the table itself is the parameter \<open>styles\<close> of the
  functions below. A \<open>row\<close> holds the arguments that \<^verbatim>\<open>printList\<close> hands to \<^verbatim>\<open>fmt.Printf\<close>
  for one line, in the order of the columns.
\<close>

record style =
  icon :: string
  symbol :: string

record row =
  col_mode :: string
  col_user :: string
  col_group :: string
  col_size :: int
  col_time :: modtime
  col_icon :: string
  col_name :: string
  col_symbol :: string

datatype panicValue = RegexpError string | SliceBounds int nat

definition printRow :: "(fileType \<Rightarrow> style) \<Rightarrow> file_t \<Rightarrow> row" where
  "printRow styles f =
     \<lparr>col_mode = mode f, col_user = userName f, col_group = groupName f,
      col_size = size_f f, col_time = modificationTime f,
      col_icon = icon (styles (fileType f)), col_name = name f,
      col_symbol = symbol (styles (fileType f))\<rparr>"

text \<open>
  The slice expression \<^verbatim>\<open>fs[:numRegisters]\<close> panics, before anything is printed, when the
  index is negative or beyond the slice. (Go allows an index up to the capacity; a list
  has no spare capacity, and \<^verbatim>\<open>main\<close> never passes an index beyond the length.)
\<close>

definition printList :: "(fileType \<Rightarrow> style) \<Rightarrow> file_t list \<Rightarrow> int \<Rightarrow> panicValue + row list" where
  "printList styles fs numRegisters =
     (if numRegisters < 0 \<or> int (length fs) < numRegisters
      then Inl (SliceBounds numRegisters (length fs))
      else Inr (map (printRow styles) (take (nat numRegisters) fs)))"

subsection \<open>The program\<close>

record flags =
  flagPattern :: string
  flagAll :: bool
  flagNumberRecords :: int
  hasOrderByTime :: bool
  hasOrderBySize :: bool
  hasOrderReverse :: bool

text \<open>
  What the program takes from its host: the outcome of \<^verbatim>\<open>runtime.GOOS == Windows\<close>,
  \<^verbatim>\<open>regexp.Compile\<close> (the error's text for an expression that does not parse, or the
  search that the compiled expression runs on a string), \<^verbatim>\<open>os.ReadDir\<close>, \<^verbatim>\<open>strings.ToLower\<close>
  and the style table.
\<close>

record host =
  onWindows :: bool
  Compile :: "string \<Rightarrow> string + (string \<Rightarrow> bool)"
  ReadDir :: "string \<Rightarrow> string + dirEntry list"
  ToLower :: "string \<Rightarrow> string"
  mapStyleByFileType :: "fileType \<Rightarrow> style"

text \<open>
  \<^verbatim>\<open>regexp.MatchString\<close> compiles the pattern, returns the error if there is one, and
  otherwise reports whether the string contains a match.
\<close>

definition MatchString :: "host \<Rightarrow> string \<Rightarrow> string \<Rightarrow> string + bool" where
  "MatchString h pattern s =
     (case Compile h pattern of Inl err \<Rightarrow> Inl err | Inr re \<Rightarrow> Inr (re s))"

text \<open>
  The two ways the loop of \<^verbatim>\<open>main\<close> ends the program: \<^verbatim>\<open>panic(err)\<close>, and
  \<^verbatim>\<open>fmt.Println(err)\<close> followed by \<^verbatim>\<open>return\<close>.
\<close>

datatype abort = Panic string | Report string

text \<open>
  The loop over the directory entries (lines 40 to 65 of \<^verbatim>\<open>main\<close>); \<open>fs\<close> is the slice
  that \<^verbatim>\<open>append\<close> grows. The pattern is matched only when it is not empty.
\<close>

fun rangeFiles ::
  "host \<Rightarrow> flags \<Rightarrow> string \<Rightarrow> dirEntry list \<Rightarrow> file_t list \<Rightarrow> abort + file_t list" where
  "rangeFiles h fl path [] fs = Inr fs"
| "rangeFiles h fl path (f # files) fs =
     (let hidden = isHidden (Name f) path in
      if hidden \<and> \<not> flagAll fl then rangeFiles h fl path files fs
      else
        (case (if flagPattern fl \<noteq> ''''
               then MatchString h (''(?i)'' @ flagPattern fl) (Name f) else Inr True) of
           Inl err \<Rightarrow> Inl (Panic err)
         | Inr isMatch \<Rightarrow>
             if \<not> isMatch then rangeFiles h fl path files fs
             else
               (case getFile (onWindows h) f hidden of
                  Inl err \<Rightarrow> Inl (Report err)
                | Inr archivo \<Rightarrow> rangeFiles h fl path files (fs @ [archivo]))))"

text \<open>Lines 67 to 77: the three guarded calls, one after the other.\<close>

definition sortFiles :: "(string \<Rightarrow> string) \<Rightarrow> flags \<Rightarrow> file_t list \<Rightarrow> file_t list" where
  "sortFiles lower fl fs =
     (let fs1 = (if \<not> hasOrderByTime fl \<and> \<not> hasOrderBySize fl
                 then orderByName lower fs (hasOrderReverse fl) else fs);
          fs2 = (if hasOrderBySize fl \<and> \<not> hasOrderByTime fl
                 then orderBySize fs1 (hasOrderReverse fl) else fs1)
      in if hasOrderByTime fl \<and> \<not> hasOrderBySize fl
         then orderByTime fs2 (hasOrderReverse fl) else fs2)"

text \<open>Lines 79 to 81: the value of \<^verbatim>\<open>*flagNumberRecords\<close> that \<^verbatim>\<open>printList\<close> receives.\<close>

definition numberRecords :: "flags \<Rightarrow> file_t list \<Rightarrow> int" where
  "numberRecords fl fs =
     (if flagNumberRecords fl = 0 \<or> flagNumberRecords fl > int (length fs)
      then int (length fs) else flagNumberRecords fl)"

text \<open>
  A run of the program: the lines written to standard output, and how the run ended.
  A \<open>Message\<close> is an error printed by \<^verbatim>\<open>fmt.Println\<close>; a \<open>Row\<close> is a line of the listing.
  After \<open>Panicked\<close> the Go runtime writes the panic value and the stack trace of the
  goroutine to standard error and exits with status 2.
\<close>

datatype line = Message string | Row row

datatype ending = Returned | Panicked panicValue

definition main :: "host \<Rightarrow> flags \<Rightarrow> string \<Rightarrow> line list \<times> ending" where
  "main h fl arg0 =
     (let path = (if arg0 = '''' then ''.'' else arg0) in
      case ReadDir h path of
        Inl err \<Rightarrow> ([Message err], Returned)
      | Inr files \<Rightarrow>
          (case rangeFiles h fl path files [] of
             Inl (Panic err) \<Rightarrow> ([], Panicked (RegexpError err))
           | Inl (Report err) \<Rightarrow> ([Message err], Returned)
           | Inr fs \<Rightarrow>
               (let sorted_fs = sortFiles (ToLower h) fl fs in
                case printList (mapStyleByFileType h) sorted_fs (numberRecords fl sorted_fs) of
                  Inl p \<Rightarrow> ([], Panicked p)
                | Inr rows \<Rightarrow> (map Row rows, Returned))))"

text \<open>The rows of the listing among the lines of a run.\<close>

fun rendered :: "line list \<Rightarrow> row list" where
  "rendered [] = []"
| "rendered (Message m # ls) = rendered ls"
| "rendered (Row r # ls) = r # rendered ls"

subsection \<open>The filter in the words of the specification\<close>

text \<open>
  \<open>shouldInclude\<close> follows the specification, not the code: an entry passes the hidden-file
  rule (its name does not begin with a dot, unless include-all is set) and the pattern
  rule (no pattern is configured, or the case-insensitive search finds the pattern in
  the raw name). The theorems compare the loop of \<^verbatim>\<open>main\<close> with it.
\<close>

definition beginsWithDot :: "string \<Rightarrow> bool" where
  "beginsWithDot n = (case n of [] \<Rightarrow> False | c # rest \<Rightarrow> c = CHR ''.'')"

definition shouldInclude :: "host \<Rightarrow> flags \<Rightarrow> dirEntry \<Rightarrow> bool" where
  "shouldInclude h fl f =
     ((\<not> beginsWithDot (Name f) \<or> flagAll fl) \<and>
      (flagPattern fl = '''' \<or>
       MatchString h (''(?i)'' @ flagPattern fl) (Name f) = Inr True))"

subsection \<open>A sample host and directory\<close>

text \<open>
  The values the worked examples run on. \<open>sampleCompile\<close> stands for \<^verbatim>\<open>regexp.Compile\<close> on
  the two kinds of expression the examples use: \<^verbatim>\<open>(?i)[\<close>, which does not parse, and
  \<^verbatim>\<open>(?i)\<close> before letters and digits, which is found in a name as a substring whatever
  the case of the letters. \<open>sampleStyle\<close> has the slash that marks a directory.
\<close>

definition sampleCompile :: "string \<Rightarrow> string + (string \<Rightarrow> bool)" where
  "sampleCompile expr =
     (if expr = ''(?i)['' then Inl ''error parsing regexp: missing closing ]: `[`''
      else Inr (\<lambda>s. Contains (asciiToLower s) (asciiToLower (drop 4 expr))))"

definition sampleStyle :: "fileType \<Rightarrow> style" where
  "sampleStyle t = \<lparr>icon = '''', symbol = (if t = fileDirectory then ''/'' else '''')\<rparr>"

text \<open>
  The directory of the end-to-end scenario, in the order in which \<^verbatim>\<open>os.ReadDir\<close> returns
  entries (sorted by file name, bytewise): \<^verbatim>\<open>.secret\<close>, \<^verbatim>\<open>B.TAR\<close> (size 5, newer), \<^verbatim>\<open>a.txt\<close>
  (size 10, older).
\<close>

definition sampleDir :: "dirEntry list" where
  "sampleDir =
     [\<lparr>Name = ''.secret'', IsDir = False,
       Info = Inr \<lparr>Size = 7, ModTime = \<lparr>sec = 150, nsec = 0\<rparr>, Mode = ''-rw-------''\<rparr>\<rparr>,
      \<lparr>Name = ''B.TAR'', IsDir = False,
       Info = Inr \<lparr>Size = 5, ModTime = \<lparr>sec = 200, nsec = 0\<rparr>, Mode = ''-rw-r--r--''\<rparr>\<rparr>,
      \<lparr>Name = ''a.txt'', IsDir = False,
       Info = Inr \<lparr>Size = 10, ModTime = \<lparr>sec = 100, nsec = 0\<rparr>, Mode = ''-rw-r--r--''\<rparr>\<rparr>]"

text \<open>The same directory when the metadata of \<^verbatim>\<open>a.txt\<close> cannot be read.\<close>

definition brokenDir :: "dirEntry list" where
  "brokenDir =
     [\<lparr>Name = ''.secret'', IsDir = False,
       Info = Inr \<lparr>Size = 7, ModTime = \<lparr>sec = 150, nsec = 0\<rparr>, Mode = ''-rw-------''\<rparr>\<rparr>,
      \<lparr>Name = ''B.TAR'', IsDir = False,
       Info = Inr \<lparr>Size = 5, ModTime = \<lparr>sec = 200, nsec = 0\<rparr>, Mode = ''-rw-r--r--''\<rparr>\<rparr>,
      \<lparr>Name = ''a.txt'', IsDir = False, Info = Inl ''lstat a.txt: no such file or directory''\<rparr>]"

definition sampleHost :: host where
  "sampleHost =
     \<lparr>onWindows = False, Compile = sampleCompile,
      ReadDir = (\<lambda>path.
        if path = ''.'' then Inr sampleDir
        else if path = ''broken'' then Inr brokenDir
        else Inl (''open '' @ path @ '': no such file or directory'')),
      ToLower = asciiToLower,
      mapStyleByFileType = sampleStyle\<rparr>"

text \<open>The flags as \<^verbatim>\<open>flag.Parse\<close> leaves them when the command line gives none.\<close>

definition noFlags :: flags where
  "noFlags =
     \<lparr>flagPattern = '''', flagAll = False, flagNumberRecords = 0,
      hasOrderByTime = False, hasOrderBySize = False, hasOrderReverse = False\<rparr>"

text \<open>Three classified files, as \<^verbatim>\<open>getFile\<close> builds them, for the examples of the sort functions.\<close>

definition sampleFile :: "string \<Rightarrow> int \<Rightarrow> int \<Rightarrow> file_t" where
  "sampleFile n sz t =
     \<lparr>name = n, isDir = False, isHidden_f = False, userName = ''user'', groupName = ''group'',
      size_f = sz, modificationTime = \<lparr>sec = t, nsec = 0\<rparr>, mode = ''-rw-r--r--'',
      fileType = fileRegular\<rparr>"

definition sampleFiles :: "file_t list" where
  "sampleFiles = [sampleFile ''B.TAR'' 5 200, sampleFile ''a.txt'' 10 100, sampleFile ''c.png'' 5 300]"

text \<open>Both sort flags at once, as \<^verbatim>\<open>edls -t -s\<close> sets them.\<close>

definition bothFlags :: flags where
  "bothFlags = noFlags\<lparr>hasOrderByTime := True, hasOrderBySize := True\<rparr>"

text \<open>A directory whose name ends like an archive.\<close>

definition archiveDir :: file_t where
  "archiveDir = (sampleFile ''backup.tar'' 4096 50)\<lparr>isDir := True, mode := ''drwxr-xr-x''\<rparr>"

section \<open>Properties\<close>

subsection \<open>The stable sort\<close>

lemma insertLast_Nil [simp]: "insertLast l [] x = [x]"
  by (simp add: insertLast.simps)

lemma insertLast_snoc [simp]:
  "insertLast l (ys @ [y]) x = (if l x y then insertLast l ys x @ [y] else ys @ [y, x])"
  by (subst insertLast.simps) simp

lemma mset_insertLast: "mset (insertLast l ys x) = add_mset x (mset ys)"
  by (induction ys rule: rev_induct) auto

lemma mset_foldl_insertLast: "mset (foldl (insertLast l) acc xs) = mset acc + mset xs"
  by (induction xs arbitrary: acc) (auto simp: mset_insertLast)

lemma mset_SliceStable: "mset (SliceStable l xs) = mset xs"
  by (simp add: SliceStable_def mset_foldl_insertLast)

lemma filter_insertLast:
  assumes "\<And>a b. P a \<Longrightarrow> P b \<Longrightarrow> \<not> l a b"
  shows "filter P (insertLast l ys x) = filter P ys @ filter P [x]"
  using assms by (induction ys rule: rev_induct) auto

lemma filter_foldl_insertLast:
  assumes "\<And>a b. P a \<Longrightarrow> P b \<Longrightarrow> \<not> l a b"
  shows "filter P (foldl (insertLast l) acc xs) = filter P acc @ filter P xs"
proof (induction xs arbitrary: acc)
  case Nil
  show ?case by simp
next
  case (Cons x xs)
  have "filter P (insertLast l acc x) = filter P acc @ filter P [x]"
    using assms by (rule filter_insertLast)
  with Cons show ?case by simp
qed

lemma filter_SliceStable:
  assumes "\<And>a b. P a \<Longrightarrow> P b \<Longrightarrow> \<not> l a b"
  shows "filter P (SliceStable l xs) = filter P xs"
  using filter_foldl_insertLast [of P l "[]" xs] assms by (simp add: SliceStable_def)

lemma set_insertLast: "set (insertLast l ys x) = insert x (set ys)"
  using mset_insertLast [of l ys x] by (metis set_mset_add_mset_insert set_mset_mset)

lemma sorted_insertLast:
  assumes asym: "\<And>a b. l a b \<Longrightarrow> \<not> l b a"
    and ntrans: "\<And>a b c. \<not> l b a \<Longrightarrow> \<not> l c b \<Longrightarrow> \<not> l c a"
    and "sorted_wrt (\<lambda>a b. \<not> l b a) ys"
  shows "sorted_wrt (\<lambda>a b. \<not> l b a) (insertLast l ys x)"
  using assms(3)
proof (induction ys rule: rev_induct)
  case Nil
  show ?case by simp
next
  case (snoc y ys)
  then show ?case
    by (auto simp: sorted_wrt_append set_insertLast dest: asym ntrans)
qed

lemma sorted_foldl_insertLast:
  assumes asym: "\<And>a b. l a b \<Longrightarrow> \<not> l b a"
    and ntrans: "\<And>a b c. \<not> l b a \<Longrightarrow> \<not> l c b \<Longrightarrow> \<not> l c a"
    and "sorted_wrt (\<lambda>a b. \<not> l b a) acc"
  shows "sorted_wrt (\<lambda>a b. \<not> l b a) (foldl (insertLast l) acc xs)"
  using assms(3)
proof (induction xs arbitrary: acc)
  case Nil
  then show ?case by simp
next
  case (Cons x xs)
  have "sorted_wrt (\<lambda>a b. \<not> l b a) (insertLast l acc x)"
    using asym ntrans Cons.prems by (rule sorted_insertLast)
  then show ?case using Cons.IH by simp
qed

lemma sorted_SliceStable:
  assumes asym: "\<And>a b. l a b \<Longrightarrow> \<not> l b a"
    and ntrans: "\<And>a b c. \<not> l b a \<Longrightarrow> \<not> l c b \<Longrightarrow> \<not> l c a"
  shows "sorted_wrt (\<lambda>a b. \<not> l b a) (SliceStable l xs)"
proof -
  have "sorted_wrt (\<lambda>a b. \<not> l b a) []" by simp
  with asym ntrans show ?thesis
    unfolding SliceStable_def by (rule sorted_foldl_insertLast)
qed

lemma stable_sorted_eq:
  assumes antisym: "\<And>a b. le a b \<Longrightarrow> le b a \<Longrightarrow> key a = key b"
    and "sorted_wrt le ys" and "sorted_wrt le zs"
    and "\<And>k. filter (\<lambda>a. key a = k) ys = filter (\<lambda>a. key a = k) zs"
  shows "ys = zs"
  using assms(2-)
proof (induction ys arbitrary: zs)
  case Nil
  show ?case
  proof (cases zs)
    case Nil
    then show ?thesis by simp
  next
    case (Cons z zs')
    with Nil.prems(3) [of "key z"] show ?thesis by simp
  qed
next
  case (Cons y ys)
  have "y \<in> set (filter (\<lambda>a. key a = key y) (y # ys))" by simp
  then have "y \<in> set (filter (\<lambda>a. key a = key y) zs)"
    by (simp only: Cons.prems(3))
  then have y_in: "y \<in> set zs" by simp
  then obtain z zs' where zs: "zs = z # zs'" by (cases zs) auto
  have "z \<in> set (filter (\<lambda>a. key a = key z) zs)" using zs by simp
  then have "z \<in> set (filter (\<lambda>a. key a = key z) (y # ys))"
    by (simp only: Cons.prems(3))
  then have z_in: "z \<in> set (y # ys)" by (simp split: if_splits)
  have "key y = key z"
  proof (cases "y = z")
    case True
    then show ?thesis by simp
  next
    case False
    with y_in z_in zs have "y \<in> set zs'" "z \<in> set ys" by auto
    with Cons.prems(1,2) zs have "le z y" "le y z" by auto
    then show ?thesis by (rule antisym [symmetric])
  qed
  with Cons.prems(3) [of "key y"] zs have yz: "y = z" by simp
  have "ys = zs'"
  proof (rule Cons.IH)
    show "sorted_wrt le ys" using Cons.prems(1) by simp
    show "sorted_wrt le zs'" using Cons.prems(2) zs by simp
    show "filter (\<lambda>a. key a = k) ys = filter (\<lambda>a. key a = k) zs'" for k
      using Cons.prems(3) [of k] zs yz by (simp split: if_splits)
  qed
  with yz zs show ?case by simp
qed


lemma SliceStable_key_stable:
  "filter (\<lambda>a. key a = k) (SliceStable (\<lambda>a b. mySort (key a) (key b) r) xs)
     = filter (\<lambda>a. key a = k) xs"
  by (rule filter_SliceStable) (simp add: mySort_def)

lemma SliceStable_key_sorted:
  "sorted_wrt (\<lambda>a b. \<not> mySort (key b) (key a) r)
     (SliceStable (\<lambda>a b. mySort (key a) (key b) r) xs)"
  by (rule sorted_SliceStable) (auto simp: mySort_def split: if_splits)

lemma stable_sorted_unique:
  assumes "sorted_wrt (\<lambda>a b. \<not> mySort (key b) (key a) r) ys"
    and "\<And>k. filter (\<lambda>a. key a = k) ys = filter (\<lambda>a. key a = k) xs"
  shows "ys = SliceStable (\<lambda>a b. mySort (key a) (key b) r) xs"
proof (rule stable_sorted_eq [where key = key and le = "\<lambda>a b. \<not> mySort (key b) (key a) r"])
  show "key a = key b" if "\<not> mySort (key b) (key a) r" "\<not> mySort (key a) (key b) r" for a b
    using that by (auto simp: mySort_def split: if_splits)
  show "sorted_wrt (\<lambda>a b. \<not> mySort (key b) (key a) r) ys" by (rule assms(1))
  show "sorted_wrt (\<lambda>a b. \<not> mySort (key b) (key a) r)
     (SliceStable (\<lambda>a b. mySort (key a) (key b) r) xs)"
    by (rule SliceStable_key_sorted)
  show "filter (\<lambda>a. key a = k) ys
     = filter (\<lambda>a. key a = k) (SliceStable (\<lambda>a b. mySort (key a) (key b) r) xs)" for k
    by (simp add: assms(2) SliceStable_key_stable)
qed

lemma filter_key_distinct:
  "distinct (map key xs) \<Longrightarrow> length (filter (\<lambda>a. key a = k) xs) \<le> 1"
proof (induction xs)
  case Nil
  show ?case by simp
next
  case (Cons x xs)
  show ?case
  proof (cases "key x = k")
    case True
    from Cons.prems have "key x \<notin> key ` set xs" by simp
    then have "\<forall>a\<in>set xs. key a \<noteq> key x" by (metis imageI)
    with True have "filter (\<lambda>a. key a = k) xs = []"
      by (simp add: filter_empty_conv)
    with True show ?thesis by simp
  next
    case False
    with Cons show ?thesis by simp
  qed
qed

lemma rev_short: "length xs \<le> 1 \<Longrightarrow> rev xs = xs"
  by (cases xs) auto

lemma SliceStable_reverse:
  assumes "distinct (map key xs)"
  shows "SliceStable (\<lambda>a b. mySort (key a) (key b) True) xs
     = rev (SliceStable (\<lambda>a b. mySort (key a) (key b) False) xs)"
proof (rule stable_sorted_unique [symmetric])
  have "sorted_wrt (\<lambda>a b. \<not> mySort (key b) (key a) False)
     (SliceStable (\<lambda>a b. mySort (key a) (key b) False) xs)"
    by (rule SliceStable_key_sorted)
  then show "sorted_wrt (\<lambda>a b. \<not> mySort (key b) (key a) True)
     (rev (SliceStable (\<lambda>a b. mySort (key a) (key b) False) xs))"
    by (simp add: sorted_wrt_rev mySort_def)
next
  fix k
  have "rev (filter (\<lambda>a. key a = k) xs) = filter (\<lambda>a. key a = k) xs"
    using assms by (intro rev_short filter_key_distinct)
  then show "filter (\<lambda>a. key a = k)
       (rev (SliceStable (\<lambda>a b. mySort (key a) (key b) False) xs))
     = filter (\<lambda>a. key a = k) xs"
    by (simp add: rev_filter [symmetric] SliceStable_key_stable)
qed

subsection \<open>Claims about the sort stage\<close>

text \<open>
  C7. On a list whose entries have pairwise different lower-cased names (no ties on the
  key), sorting by name with the reverse flag set gives the reversal of the list that
  sorting without it gives. This holds whatever function \<open>lower\<close> stands for
  \<^verbatim>\<open>strings.ToLower\<close>: the ties are the ties of the key the code compares. The flag does
  nothing but turn the one comparison round: \<open>mySort i j True\<close> is \<open>mySort j i False\<close>, and
  \<open>orderByName\<close> makes the single call of \<open>SliceStable\<close> either way.
\<close>

theorem reverse_name_sort:
  "(\<forall>i j :: string. mySort i j True = mySort j i False) \<and>
   (distinct (map (\<lambda>f. lower (name f)) fs) \<longrightarrow>
      orderByName lower fs True = rev (orderByName lower fs False))"
proof -
  have "orderByName lower fs True = rev (orderByName lower fs False)"
    if "distinct (map (\<lambda>f. lower (name f)) fs)"
    unfolding orderByName_def using that by (rule SliceStable_reverse)
  then show ?thesis by (auto simp: mySort_def)
qed

theorem reverse_name_sort_witness:
  "distinct (map (\<lambda>f. asciiToLower (name f)) sampleFiles) \<and>
   orderByName asciiToLower sampleFiles True = rev (orderByName asciiToLower sampleFiles False)"
proof -
  have d: "distinct (map (\<lambda>f. asciiToLower (name f)) sampleFiles)"
    by code_simp
  from reverse_name_sort [of asciiToLower sampleFiles] d show ?thesis by blast
qed

text \<open>
  C8. Each of the three sorts is stable, with the reverse flag or without: for every
  value of the key, the entries that have this value stand in the sorted list in the
  order in which they stood before. So two entries that compare equal under the active
  key keep their relative order. For the sort by name the key is the lower-cased name,
  for every function \<open>lower\<close> in the place of \<^verbatim>\<open>strings.ToLower\<close>.
\<close>

theorem sort_keys_stable:
  "filter (\<lambda>f. lower (name f) = k) (orderByName lower fs r)
     = filter (\<lambda>f. lower (name f) = k) fs \<and>
   filter (\<lambda>f. size_f f = n) (orderBySize fs r) = filter (\<lambda>f. size_f f = n) fs \<and>
   filter (\<lambda>f. Unix (modificationTime f) = t) (orderByTime fs r)
     = filter (\<lambda>f. Unix (modificationTime f) = t) fs"
  unfolding orderByName_def orderBySize_def orderByTime_def
  by (simp add: SliceStable_key_stable)

subsection \<open>Claims about the classifier\<close>

lemma of_char_toUpperChar:
  "(of_char (toUpperChar c) :: nat) =
     (if 97 \<le> (of_char c :: nat) \<and> (of_char c :: nat) \<le> 122 then of_char c - 32 else of_char c)"
proof -
  have "(of_char c :: nat) < 256" by (rule nat_of_char_less_256)
  then have "(of_char c :: nat) - 32 < 256" by arith
  then show ?thesis
    by (simp add: toUpperChar_def less_eq_char_def)
qed

lemma toUpperChar_L: "toUpperChar c = CHR ''L'' \<longleftrightarrow> c = CHR ''L'' \<or> c = CHR ''l''"
proof -
  have "toUpperChar c = CHR ''L'' \<longleftrightarrow> (of_char (toUpperChar c) :: nat) = of_char CHR ''L''"
    by (simp only: of_char_eq_iff)
  also have "\<dots> \<longleftrightarrow> (of_char c :: nat) = 76 \<or> (of_char c :: nat) = 108"
    unfolding of_char_toUpperChar by auto
  also have "\<dots> \<longleftrightarrow> (of_char c :: nat) = of_char CHR ''L'' \<or> (of_char c :: nat) = of_char CHR ''l''"
    by simp
  also have "\<dots> \<longleftrightarrow> c = CHR ''L'' \<or> c = CHR ''l''"
    by (simp only: of_char_eq_iff)
  finally show ?thesis .
qed

lemma isLink_iff: "isLink f \<longleftrightarrow> (\<exists>rest. mode f = CHR ''L'' # rest \<or> mode f = CHR ''l'' # rest)"
proof (cases "mode f")
  case Nil
  then show ?thesis by (simp add: isLink_def HasPrefix_def ToUpper_def)
next
  case (Cons a list)
  then have "isLink f \<longleftrightarrow> toUpperChar a = CHR ''L''"
    by (auto simp: isLink_def HasPrefix_def ToUpper_def)
  also have "\<dots> \<longleftrightarrow> a = CHR ''L'' \<or> a = CHR ''l''" by (rule toUpperChar_L)
  finally show ?thesis using Cons by auto
qed

lemma rangeSuffix_iff: "rangeSuffix n ss \<longleftrightarrow> (\<exists>s\<in>set ss. suffix s n)"
  by (induction ss) (auto simp: HasSuffix_def)

lemma Contains_char: "Contains s [c] \<longleftrightarrow> c \<in> set s"
  unfolding Contains_def
  by (metis append_Cons append_Nil in_set_conv_decomp sublist_def)

text \<open>
  C1. \<open>setFile\<close> assigns one file type, the first that fits in the fixed order: link (the
  mode string starts with \<open>L\<close> or \<open>l\<close>), directory, executable (on Windows the name ends
  in \<^verbatim>\<open>.exe\<close>, elsewhere the mode string has an \<open>x\<close>), compressed (the name ends in one
  of the five archive suffixes, compared as they are written), image (one of the three
  image suffixes), regular otherwise. It changes no other field. A directory is never
  classified compressed, whatever its name; it is classified a directory unless the link
  test, which comes first, fits.
\<close>

theorem setFile_precedence:
  "fileType (setFile w f) =
     (if \<exists>rest. mode f = CHR ''L'' # rest \<or> mode f = CHR ''l'' # rest then fileLink
      else if isDir f then fileDirectory
      else if (if w then suffix ''.exe'' (name f) else CHR ''x'' \<in> set (mode f))
        then fileExecutable
      else if \<exists>s\<in>{''.deb'', ''.zip'', ''.gz'', ''.tar'', ''.rar''}. suffix s (name f)
        then fileCompress
      else if \<exists>s\<in>{''.png'', ''.jpg'', ''.gif''}. suffix s (name f) then fileImage
      else fileRegular) \<and>
   setFile w f = f\<lparr>fileType := fileType (setFile w f)\<rparr> \<and>
   (isDir f \<longrightarrow> fileType (setFile w f) \<noteq> fileCompress) \<and>
   (isDir f \<and> \<not> isLink f \<longrightarrow> fileType (setFile w f) = fileDirectory)"
proof -
  have ex: "isExec w f \<longleftrightarrow> (if w then suffix ''.exe'' (name f) else CHR ''x'' \<in> set (mode f))"
    by (simp add: isExec_def HasSuffix_def exe_def Contains_char)
  have co: "isCompress f \<longleftrightarrow> (\<exists>s\<in>{''.deb'', ''.zip'', ''.gz'', ''.tar'', ''.rar''}. suffix s (name f))"
    by (simp add: isCompress_def rangeSuffix_iff deb_def zip_ext_def gz_def tar_def rar_def)
  have im: "isImage f \<longleftrightarrow> (\<exists>s\<in>{''.png'', ''.jpg'', ''.gif''}. suffix s (name f))"
    by (simp add: isImage_def rangeSuffix_iff png_def jpg_def gif_def)
  have 1: "fileType (setFile w f) =
     (if isLink f then fileLink else if isDir f then fileDirectory
      else if isExec w f then fileExecutable else if isCompress f then fileCompress
      else if isImage f then fileImage else fileRegular)"
    by (simp add: setFile_def)
  have 2: "setFile w f = f\<lparr>fileType := fileType (setFile w f)\<rparr>"
    by (simp add: setFile_def)
  from 1 have 3: "isDir f \<longrightarrow> fileType (setFile w f) \<noteq> fileCompress"
    and 4: "isDir f \<and> \<not> isLink f \<longrightarrow> fileType (setFile w f) = fileDirectory"
    by simp_all
  from 1 have 5: "fileType (setFile w f) =
     (if \<exists>rest. mode f = CHR ''L'' # rest \<or> mode f = CHR ''l'' # rest then fileLink
      else if isDir f then fileDirectory
      else if (if w then suffix ''.exe'' (name f) else CHR ''x'' \<in> set (mode f))
        then fileExecutable
      else if \<exists>s\<in>{''.deb'', ''.zip'', ''.gz'', ''.tar'', ''.rar''}. suffix s (name f)
        then fileCompress
      else if \<exists>s\<in>{''.png'', ''.jpg'', ''.gif''}. suffix s (name f) then fileImage
      else fileRegular)"
    by (simp only: isLink_iff ex co im)
  from 5 2 3 4 show ?thesis by (intro conjI)
qed

theorem setFile_precedence_witness:
  "isDir archiveDir \<and> \<not> isLink archiveDir \<and> isCompress archiveDir \<and>
   fileType (setFile False archiveDir) = fileDirectory \<and>
   fileType (setFile False archiveDir) \<noteq> fileCompress"
proof -
  have h: "isDir archiveDir" "\<not> isLink archiveDir" "isCompress archiveDir" by code_simp+
  from setFile_precedence [of False archiveDir] h show ?thesis by blast
qed

subsection \<open>Claims about the filter loop\<close>

lemma isHidden_iff: "isHidden n p \<longleftrightarrow> beginsWithDot n"
  by (cases n) (auto simp: isHidden_def HasPrefix_def beginsWithDot_def)

lemma rangeFiles_acc:
  "rangeFiles h fl path files acc = Inr fs \<Longrightarrow>
   map Inr fs = map Inr acc @
     map (\<lambda>f. getFile (onWindows h) f (isHidden (Name f) path)) (filter (shouldInclude h fl) files)"
proof (induction files arbitrary: acc)
  case Nil
  then show ?case by simp
next
  case (Cons f files)
  show ?case
  proof (cases "shouldInclude h fl f")
    case False
    with Cons.prems have "rangeFiles h fl path files acc = Inr fs"
      by (auto simp: shouldInclude_def isHidden_iff Let_def split: if_splits sum.splits)
    with Cons.IH False show ?thesis by simp
  next
    case True
    with Cons.prems obtain archivo where
      g: "getFile (onWindows h) f (isHidden (Name f) path) = Inr archivo" and
      r: "rangeFiles h fl path files (acc @ [archivo]) = Inr fs"
      by (auto simp: shouldInclude_def isHidden_iff Let_def split: if_splits sum.splits)
    from Cons.IH [OF r] g True show ?thesis by simp
  qed
qed

text \<open>
  C3. When the loop of \<^verbatim>\<open>main\<close> runs to its end, the working set is, in the order of the
  directory, what \<^verbatim>\<open>getFile\<close> returns for exactly the entries that \<open>shouldInclude\<close> accepts:
  the entries that pass the hidden-file rule and the pattern rule, both. The pattern
  rule is the search of \<^verbatim>\<open>regexp.MatchString\<close> for \<^verbatim>\<open>(?i)\<close> followed by the pattern in the
  raw name.
\<close>

theorem filter_conjunctive:
  assumes "rangeFiles h fl path files [] = Inr fs"
  shows "map Inr fs =
    map (\<lambda>f. getFile (onWindows h) f (isHidden (Name f) path)) (filter (shouldInclude h fl) files)"
  using rangeFiles_acc [OF assms] by simp

theorem filter_conjunctive_witness:
  "rangeFiles sampleHost (noFlags\<lparr>flagPattern := ''TXT''\<rparr>) ''.'' sampleDir []
     = Inr [sampleFile ''a.txt'' 10 100] \<and>
   map Inr [sampleFile ''a.txt'' 10 100] =
     map (\<lambda>f. getFile (onWindows sampleHost) f (isHidden (Name f) ''.''))
       (filter (shouldInclude sampleHost (noFlags\<lparr>flagPattern := ''TXT''\<rparr>)) sampleDir)"
proof -
  have r: "rangeFiles sampleHost (noFlags\<lparr>flagPattern := ''TXT''\<rparr>) ''.'' sampleDir []
     = Inr [sampleFile ''a.txt'' 10 100]"
    by code_simp
  from filter_conjunctive [OF r] r show ?thesis by (rule_tac conjI)
qed

text \<open>
  The loop does run to its end when the pattern compiles (or is empty) and the metadata
  of every accepted entry can be read.
\<close>

lemma rangeFiles_returns:
  assumes "flagPattern fl = '''' \<or> (\<exists>re. Compile h (''(?i)'' @ flagPattern fl) = Inr re)"
    and "\<And>f. f \<in> set files \<Longrightarrow> shouldInclude h fl f \<Longrightarrow> \<exists>info. Info f = Inr info"
  shows "\<exists>fs. rangeFiles h fl path files acc = Inr fs"
  using assms(2)
proof (induction files arbitrary: acc)
  case Nil
  show ?case by simp
next
  case (Cons f files)
  have IH: "\<exists>fs. rangeFiles h fl path files acc' = Inr fs" for acc'
    using Cons.IH Cons.prems by simp
  show ?case
  proof (cases "shouldInclude h fl f")
    case False
    with assms(1) IH [of acc] show ?thesis
      by (auto simp: shouldInclude_def isHidden_iff MatchString_def Let_def split: sum.splits)
  next
    case True
    with Cons.prems obtain info where "Info f = Inr info" by auto
    with True assms(1) IH show ?thesis
      by (auto simp: shouldInclude_def isHidden_iff MatchString_def getFile_def Let_def
          split: sum.splits)
  qed
qed

lemma rangeFiles_first_failure:
  assumes "\<exists>f\<in>set files. shouldInclude h fl f \<and> (\<exists>e. Info f = Inl e)"
  shows "\<exists>f\<in>set files. \<exists>e. shouldInclude h fl f \<and> Info f = Inl e \<and>
    rangeFiles h fl path files acc = Inl (Report (''f.Info(): '' @ e))"
  using assms
proof (induction files arbitrary: acc)
  case Nil
  then show ?case by simp
next
  case (Cons g files)
  from Cons.prems obtain f0 where f0: "f0 \<in> set (g # files)" "shouldInclude h fl f0"
    by blast
  then have ok: "flagPattern fl = '''' \<or> (\<exists>re. Compile h (''(?i)'' @ flagPattern fl) = Inr re)"
    by (auto simp: shouldInclude_def MatchString_def split: sum.splits)
  show ?case
  proof (cases "shouldInclude h fl g")
    case False
    with Cons.prems have "\<exists>f\<in>set files. shouldInclude h fl f \<and> (\<exists>e. Info f = Inl e)"
      by auto
    from Cons.IH [OF this, of acc] obtain f e where
      "f \<in> set files" "shouldInclude h fl f" "Info f = Inl e"
      "rangeFiles h fl path files acc = Inl (Report (''f.Info(): '' @ e))" by blast
    moreover have "rangeFiles h fl path (g # files) acc = rangeFiles h fl path files acc"
      using False ok
      by (auto simp: shouldInclude_def isHidden_iff MatchString_def Let_def split: sum.splits)
    ultimately show ?thesis by auto
  next
    case True
    show ?thesis
    proof (cases "Info g")
      case (Inl e)
      with True have "rangeFiles h fl path (g # files) acc = Inl (Report (''f.Info(): '' @ e))"
        by (auto simp: shouldInclude_def isHidden_iff getFile_def Let_def split: sum.splits)
      with True Inl show ?thesis by auto
    next
      case (Inr info)
      with Cons.prems have "\<exists>f\<in>set files. shouldInclude h fl f \<and> (\<exists>e. Info f = Inl e)"
        by auto
      from Cons.IH [OF this] obtain f e where
        "f \<in> set files" "shouldInclude h fl f" "Info f = Inl e"
        "rangeFiles h fl path files
           (acc @ [setFile (onWindows h)
             \<lparr>name = Name g, isDir = IsDir g, isHidden_f = isHidden (Name g) path,
              userName = ''user'', groupName = ''group'',
              size_f = Size info, modificationTime = ModTime info,
              mode = Mode info, fileType = fileRegular\<rparr>])
          = Inl (Report (''f.Info(): '' @ e))" by blast
      moreover have "rangeFiles h fl path (g # files) acc =
        rangeFiles h fl path files
           (acc @ [setFile (onWindows h)
             \<lparr>name = Name g, isDir = IsDir g, isHidden_f = isHidden (Name g) path,
              userName = ''user'', groupName = ''group'',
              size_f = Size info, modificationTime = ModTime info,
              mode = Mode info, fileType = fileRegular\<rparr>])"
        using True Inr
        by (auto simp: shouldInclude_def isHidden_iff getFile_def Let_def split: sum.splits)
      ultimately show ?thesis by auto
    qed
  qed
qed

text \<open>
  With a pattern that does not compile, the loop panics at the first entry that passes
  the hidden-file rule, before \<^verbatim>\<open>getFile\<close> is called for any entry; when no entry passes
  that rule the pattern is never compiled.
\<close>

lemma malformed_pattern_run:
  assumes "flagPattern fl \<noteq> ''''" and "Compile h (''(?i)'' @ flagPattern fl) = Inl e"
  shows "rangeFiles h fl path files acc =
    (if \<exists>f\<in>set files. \<not> beginsWithDot (Name f) \<or> flagAll fl then Inl (Panic e) else Inr acc)"
  using assms
  by (induction files arbitrary: acc) (auto simp: isHidden_iff MatchString_def Let_def)

text \<open>
  C5. When \<^verbatim>\<open>os.ReadDir\<close> fails, the program prints that error and returns. When the
  metadata of an entry that passes the filter cannot be read, the program prints the
  error of such an entry (of the first one in the directory) and returns. In both cases
  no row of the listing is printed, whatever entries the loop had already collected.
\<close>

theorem fatal_errors_print_nothing:
  "(ReadDir h (if arg0 = '''' then ''.'' else arg0) = Inl err \<longrightarrow>
      main h fl arg0 = ([Message err], Returned) \<and> rendered (fst (main h fl arg0)) = []) \<and>
   (ReadDir h (if arg0 = '''' then ''.'' else arg0) = Inr files \<and>
    (\<exists>f\<in>set files. shouldInclude h fl f \<and> (\<exists>e. Info f = Inl e)) \<longrightarrow>
      (\<exists>f\<in>set files. \<exists>e. shouldInclude h fl f \<and> Info f = Inl e \<and>
         main h fl arg0 = ([Message (''f.Info(): '' @ e)], Returned)) \<and>
      rendered (fst (main h fl arg0)) = [])"
proof (intro conjI impI)
  assume "ReadDir h (if arg0 = '''' then ''.'' else arg0) = Inl err"
  then show "main h fl arg0 = ([Message err], Returned)"
    and "rendered (fst (main h fl arg0)) = []"
    by (simp_all add: main_def)
next
  assume a: "ReadDir h (if arg0 = '''' then ''.'' else arg0) = Inr files \<and>
    (\<exists>f\<in>set files. shouldInclude h fl f \<and> (\<exists>e. Info f = Inl e))"
  then have "\<exists>f\<in>set files. \<exists>e. shouldInclude h fl f \<and> Info f = Inl e \<and>
    rangeFiles h fl (if arg0 = '''' then ''.'' else arg0) files []
      = Inl (Report (''f.Info(): '' @ e))"
    by (intro rangeFiles_first_failure) simp
  with a show m: "\<exists>f\<in>set files. \<exists>e. shouldInclude h fl f \<and> Info f = Inl e \<and>
         main h fl arg0 = ([Message (''f.Info(): '' @ e)], Returned)"
    by (auto simp: main_def)
  then show "rendered (fst (main h fl arg0)) = []" by auto
qed

theorem fatal_errors_print_nothing_witness:
  "ReadDir sampleHost ''nowhere'' = Inl ''open nowhere: no such file or directory'' \<and>
   main sampleHost noFlags ''nowhere''
     = ([Message ''open nowhere: no such file or directory''], Returned) \<and>
   ReadDir sampleHost ''broken'' = Inr brokenDir \<and>
   (\<exists>f\<in>set brokenDir. shouldInclude sampleHost noFlags f \<and> (\<exists>e. Info f = Inl e)) \<and>
   rendered (fst (main sampleHost noFlags ''broken'')) = []"
proof -
  have 1: "ReadDir sampleHost ''nowhere'' = Inl ''open nowhere: no such file or directory''"
    by code_simp
  have 2: "ReadDir sampleHost ''broken'' = Inr brokenDir"
    by code_simp
  have "shouldInclude sampleHost noFlags (brokenDir ! 2) \<and>
    Info (brokenDir ! 2) = Inl ''lstat a.txt: no such file or directory''"
    by code_simp
  moreover have "brokenDir ! 2 \<in> set brokenDir" by (simp add: brokenDir_def)
  ultimately have 3: "\<exists>f\<in>set brokenDir. shouldInclude sampleHost noFlags f \<and> (\<exists>e. Info f = Inl e)"
    by blast
  from fatal_errors_print_nothing [of sampleHost "''nowhere''" _ noFlags] 1
  have 4: "main sampleHost noFlags ''nowhere''
     = ([Message ''open nowhere: no such file or directory''], Returned)"
    by simp
  from fatal_errors_print_nothing [of sampleHost "''broken''" _ noFlags brokenDir] 2 3
  have 5: "rendered (fst (main sampleHost noFlags ''broken'')) = []"
    by simp
  from 1 2 3 4 5 show ?thesis by (intro conjI)
qed

text \<open>
  C6. On the sample directory, with the pattern \<^verbatim>\<open>[\<close>, the run prints nothing and ends in
  \<^verbatim>\<open>panic(err)\<close>: the program does not print the message and return, as it does for the
  two other errors.
\<close>

theorem malformed_pattern_panics:
  "main sampleHost (noFlags\<lparr>flagPattern := ''[''\<rparr>) ''''
     = ([], Panicked (RegexpError ''error parsing regexp: missing closing ]: `[`''))"
  by code_simp

subsection \<open>Claims about the choice of the sort\<close>

text \<open>
  C2, as the claim states it, fails: on the sample directory the run with both sort flags
  lists \<^verbatim>\<open>B.TAR\<close> before \<^verbatim>\<open>a.txt\<close>, the order of the directory, while the run with the
  time flag alone lists the older \<^verbatim>\<open>a.txt\<close> first.
\<close>

theorem both_flags_keep_order:
  "map col_name (rendered (fst (main sampleHost bothFlags ''''))) = [''B.TAR'', ''a.txt''] \<and>
   map col_name (rendered (fst (main sampleHost (noFlags\<lparr>hasOrderByTime := True\<rparr>) '''')))
     = [''a.txt'', ''B.TAR''] \<and>
   main sampleHost bothFlags '''' \<noteq> main sampleHost (noFlags\<lparr>hasOrderByTime := True\<rparr>) ''''"
  by code_simp

text \<open>
  C2, amended. With both sort flags set none of the three sorts is called, and the list
  keeps the order in which the loop collected it; with the time flag alone the list is
  sorted by time, with the size flag alone by size, and with neither flag by name.
\<close>

theorem sortFiles_selection:
  "sortFiles lower (fl\<lparr>hasOrderByTime := True, hasOrderBySize := True\<rparr>) fs = fs \<and>
   sortFiles lower (fl\<lparr>hasOrderByTime := True, hasOrderBySize := False\<rparr>) fs
     = orderByTime fs (hasOrderReverse fl) \<and>
   sortFiles lower (fl\<lparr>hasOrderByTime := False, hasOrderBySize := True\<rparr>) fs
     = orderBySize fs (hasOrderReverse fl) \<and>
   sortFiles lower (fl\<lparr>hasOrderByTime := False, hasOrderBySize := False\<rparr>) fs
     = orderByName lower fs (hasOrderReverse fl)"
  by (simp add: sortFiles_def)

subsection \<open>Claims about the limit\<close>

text \<open>
  Once the loop has collected the working set, a run is the sort, the rewrite of the
  flag \<^verbatim>\<open>-n\<close> and \<^verbatim>\<open>printList\<close>; the rows it renders are the rows \<^verbatim>\<open>printList\<close> prints.
\<close>

lemma main_lists:
  assumes "ReadDir h (if arg0 = '''' then ''.'' else arg0) = Inr files"
    and "rangeFiles h fl (if arg0 = '''' then ''.'' else arg0) files [] = Inr fs"
  shows "main h fl arg0 =
    (case printList (mapStyleByFileType h) (sortFiles (ToLower h) fl fs)
            (numberRecords fl (sortFiles (ToLower h) fl fs)) of
       Inl p \<Rightarrow> ([], Panicked p)
     | Inr rows \<Rightarrow> (map Row rows, Returned))"
  using assms by (simp add: main_def Let_def)

lemma rendered_rows: "rendered (map Row rows) = rows"
  by (induction rows) simp_all

text \<open>
  C4. For every list and every value \<open>N\<close> of the flag \<^verbatim>\<open>-n\<close>: when \<open>N\<close> is zero or greater
  than the number of entries, one row is printed for each entry; when \<open>N\<close> lies strictly
  between zero and the number of entries, rows are printed for exactly the first \<open>N\<close>
  entries; and whenever rows are printed they are a prefix of the rows of the list,
  never more than the list has.
\<close>

theorem limit_clamps:
  "(flagNumberRecords fl = 0 \<or> flagNumberRecords fl > int (length fs) \<longrightarrow>
      printList st fs (numberRecords fl fs) = Inr (map (printRow st) fs)) \<and>
   (0 < flagNumberRecords fl \<and> flagNumberRecords fl < int (length fs) \<longrightarrow>
      printList st fs (numberRecords fl fs)
        = Inr (map (printRow st) (take (nat (flagNumberRecords fl)) fs)) \<and>
      length (take (nat (flagNumberRecords fl)) fs) = nat (flagNumberRecords fl)) \<and>
   (\<forall>rows. printList st fs (numberRecords fl fs) = Inr rows \<longrightarrow>
      length rows \<le> length fs \<and> rows = take (length rows) (map (printRow st) fs))"
  by (auto simp: printList_def numberRecords_def take_map)

theorem limit_clamps_witness:
  "printList sampleStyle sampleFiles (numberRecords (noFlags\<lparr>flagNumberRecords := 7\<rparr>) sampleFiles)
     = Inr (map (printRow sampleStyle) sampleFiles) \<and>
   printList sampleStyle sampleFiles (numberRecords (noFlags\<lparr>flagNumberRecords := 2\<rparr>) sampleFiles)
     = Inr (map (printRow sampleStyle) (take 2 sampleFiles))"
proof -
  have l: "int (length sampleFiles) = 3" by (simp add: sampleFiles_def)
  from limit_clamps [of "noFlags\<lparr>flagNumberRecords := 7\<rparr>" sampleFiles sampleStyle] l
  have 1: "printList sampleStyle sampleFiles
      (numberRecords (noFlags\<lparr>flagNumberRecords := 7\<rparr>) sampleFiles)
     = Inr (map (printRow sampleStyle) sampleFiles)"
    by simp
  from limit_clamps [of "noFlags\<lparr>flagNumberRecords := 2\<rparr>" sampleFiles sampleStyle] l
  have 2: "printList sampleStyle sampleFiles
      (numberRecords (noFlags\<lparr>flagNumberRecords := 2\<rparr>) sampleFiles)
     = Inr (map (printRow sampleStyle) (take 2 sampleFiles))"
    by simp
  from 1 2 show ?thesis by (rule conjI)
qed

text \<open>
  C10. The slice expression of \<^verbatim>\<open>printList\<close> is in bounds exactly when the value of \<^verbatim>\<open>-n\<close>
  is not negative. For such a value the index that \<^verbatim>\<open>main\<close> passes lies between zero and
  the length of the list. A negative value passes the two tests of \<^verbatim>\<open>main\<close> unchanged,
  and the slice expression panics.
\<close>

theorem slice_in_bounds:
  "((\<exists>rows. printList st fs (numberRecords fl fs) = Inr rows) \<longleftrightarrow> 0 \<le> flagNumberRecords fl) \<and>
   (0 \<le> flagNumberRecords fl \<longrightarrow>
      0 \<le> numberRecords fl fs \<and> numberRecords fl fs \<le> int (length fs)) \<and>
   (flagNumberRecords fl < 0 \<longrightarrow>
      numberRecords fl fs = flagNumberRecords fl \<and>
      printList st fs (numberRecords fl fs)
        = Inl (SliceBounds (flagNumberRecords fl) (length fs)))"
  by (auto simp: printList_def numberRecords_def)

theorem slice_in_bounds_witness:
  "numberRecords (noFlags\<lparr>flagNumberRecords := 7\<rparr>) sampleFiles \<le> 3 \<and>
   printList sampleStyle sampleFiles (numberRecords (noFlags\<lparr>flagNumberRecords := - 1\<rparr>) sampleFiles)
     = Inl (SliceBounds (- 1) 3)"
proof -
  have l: "length sampleFiles = 3" by (simp add: sampleFiles_def)
  from slice_in_bounds [of sampleStyle sampleFiles "noFlags\<lparr>flagNumberRecords := 7\<rparr>"] l
  have 1: "numberRecords (noFlags\<lparr>flagNumberRecords := 7\<rparr>) sampleFiles \<le> 3"
    by simp
  have neg: "flagNumberRecords (noFlags\<lparr>flagNumberRecords := - 1\<rparr>) < 0" by simp
  from slice_in_bounds [of sampleStyle sampleFiles "noFlags\<lparr>flagNumberRecords := - 1\<rparr>"] neg
  have "printList sampleStyle sampleFiles
      (numberRecords (noFlags\<lparr>flagNumberRecords := - 1\<rparr>) sampleFiles)
     = Inl (SliceBounds (flagNumberRecords (noFlags\<lparr>flagNumberRecords := - 1\<rparr>))
         (length sampleFiles))"
    by blast
  with l have 2: "printList sampleStyle sampleFiles
      (numberRecords (noFlags\<lparr>flagNumberRecords := - 1\<rparr>) sampleFiles)
     = Inl (SliceBounds (- 1) 3)"
    by simp
  from 1 2 show ?thesis by (rule conjI)
qed

subsection \<open>The end-to-end scenario\<close>

text \<open>
  C9, as the claim states it, fails: the run without flags on the sample directory does
  not list \<^verbatim>\<open>B.TAR\<close> and then \<^verbatim>\<open>a.txt\<close>.
\<close>

theorem scenario_lists_B_first_counterexample:
  "map col_name (rendered (fst (main sampleHost noFlags ''''))) \<noteq> [''B.TAR'', ''a.txt'']"
  by code_simp

text \<open>
  C9, amended. On the directory with \<^verbatim>\<open>a.txt\<close>, \<^verbatim>\<open>B.TAR\<close> and \<^verbatim>\<open>.secret\<close>, the run without
  flags lists \<^verbatim>\<open>a.txt\<close> and then \<^verbatim>\<open>B.TAR\<close>, the order of the lower-cased names, and leaves
  \<^verbatim>\<open>.secret\<close> out; with include-all set it lists \<^verbatim>\<open>.secret\<close>, \<^verbatim>\<open>a.txt\<close>, \<^verbatim>\<open>B.TAR\<close>.
\<close>

theorem scenario_listing:
  "ReadDir sampleHost ''.'' = Inr sampleDir \<and>
   map col_name (rendered (fst (main sampleHost noFlags ''''))) = [''a.txt'', ''B.TAR''] \<and>
   map col_name (rendered (fst (main sampleHost (noFlags\<lparr>flagAll := True\<rparr>) '''')))
     = [''.secret'', ''a.txt'', ''B.TAR''] \<and>
   snd (main sampleHost noFlags '''') = Returned \<and>
   snd (main sampleHost (noFlags\<lparr>flagAll := True\<rparr>) '''') = Returned"
  by code_simp

end
